theory Spec2Isabelle
  imports Main "HOL-Library.Word"
begin

unbundle bit_operations_syntax

section \<open>Data model of \<^verbatim>\<open>kernel/vm/vmmap.c\<close>\<close>

text \<open>
  Virtual page numbers, page counts and offsets are \<^verbatim>\<open>uint32_t\<close> in the source, so they
  are 32-bit words here: addition and subtraction wrap, comparisons are unsigned.
  A memory object is known to this file only through a pointer, modelled as an address.
\<close>

type_synonym u32 = "32 word"
type_synonym mmobj = nat
type_synonym vmmap_ptr = nat

text \<open>
  \<^verbatim>\<open>vmarea_t\<close>. The two list links (\<^verbatim>\<open>vma_plink\<close>, \<^verbatim>\<open>vma_olink\<close>) are not fields of the
  model: membership and position in \<^verbatim>\<open>vmm_list\<close> is the position in the list of the map,
  and the shadow chain of \<^verbatim>\<open>vma_olink\<close> belongs to the memory-object layer.
\<close>

record vmarea =
  vma_start :: u32
  vma_end :: u32
  vma_off :: u32
  vma_prot :: "32 word"
  vma_flags :: "32 word"
  vma_vmmap :: "vmmap_ptr option"
  vma_obj :: mmobj

text \<open>
  \<^verbatim>\<open>vmmap_t\<close>: the list of areas in list order. \<open>vmm_self\<close> is the address of the struct,
  the value a linked area's \<^verbatim>\<open>vma_vmmap\<close> holds.
\<close>

record vmmap =
  vmm_self :: vmmap_ptr
  vmm_list :: "vmarea list"

text \<open>A failed \<^verbatim>\<open>KASSERT\<close> halts the kernel: \<open>Panic\<close>. Otherwise the call returns.\<close>

datatype 'a kres = Panic | Ret 'a

text \<open>
  What the file takes from headers that are not part of it: the constants
  \<^verbatim>\<open>USER_PAGE_HIGH\<close> (from \<^verbatim>\<open>USER_MEM_HIGH\<close>, \<^verbatim>\<open>USER_MEM_LOW\<close>, \<^verbatim>\<open>PAGE_SIZE\<close>),
  \<^verbatim>\<open>VMMAP_DIR_LOHI\<close>, \<^verbatim>\<open>ENOSPC\<close>, \<^verbatim>\<open>MAP_PRIVATE\<close>, \<^verbatim>\<open>PAGE_SIZE\<close>, and the
  \<^verbatim>\<open>lookuppage\<close> operation of an anonymous object, which answers a status and whether the
  frame pointer it stored is \<^verbatim>\<open>NULL\<close>. All are parameters.
\<close>

record kconf =
  USER_PAGE_HIGH :: u32
  VMMAP_DIR_LOHI :: int
  ENOSPC :: int
  MAP_PRIVATE :: "32 word"
  PAGE_SIZE :: nat
  lookuppage :: "mmobj \<Rightarrow> u32 \<Rightarrow> int \<Rightarrow> int \<times> bool"

text \<open>
  A vnode is used only through \<^verbatim>\<open>file->vn_ops->mmap(file, vma, &ret)\<close>: given the area
  under construction it answers a status, the object pointer it stored (\<open>None\<close> for
  \<^verbatim>\<open>NULL\<close>) and the area as it left it.
\<close>

type_synonym vnode = "vmarea \<Rightarrow> int \<times> mmobj option \<times> vmarea"

text \<open>
  The state outside the map. \<open>slab\<close> lists what the next calls of
  \<^verbatim>\<open>slab_obj_alloc(vmarea_allocator)\<close> return: \<open>None\<close> for \<^verbatim>\<open>NULL\<close>, or an object whose
  fields hold whatever the memory held (the slab does not clear it); an exhausted list
  returns \<^verbatim>\<open>NULL\<close>. \<open>anons\<close> does the same for \<^verbatim>\<open>anon_create\<close>. \<open>refcnt\<close> is the
  reference count of each memory object, \<open>pagelog\<close> the calls of \<^verbatim>\<open>lookuppage\<close> made so
  far (object, page number, \<^verbatim>\<open>forwrite\<close>).
\<close>

record world =
  slab :: "vmarea option list"
  anons :: "mmobj option list"
  refcnt :: "mmobj \<Rightarrow> int"
  pagelog :: "(mmobj \<times> u32 \<times> int) list"

section \<open>Collaborators\<close>

definition valid_pagenumber :: "kconf \<Rightarrow> u32 \<Rightarrow> bool" where
  "valid_pagenumber c pagenum = (pagenum < USER_PAGE_HIGH c)"

definition vmarea_alloc :: "world \<Rightarrow> vmarea option \<times> world" where
  "vmarea_alloc w =
     (case slab w of
        [] \<Rightarrow> (None, w)
      | x # xs \<Rightarrow>
          (case x of
             None \<Rightarrow> (None, w\<lparr>slab := xs\<rparr>)
           | Some newvma \<Rightarrow> (Some (newvma\<lparr>vma_vmmap := None\<rparr>), w\<lparr>slab := xs\<rparr>)))"

text \<open>
  Modelled from the spec: \<^verbatim>\<open>anon_create\<close> is not in this file; the spec's
  \<^verbatim>\<open>new_anonymous() -> obj\<close> is "null on OOM".
\<close>

definition anon_create :: "world \<Rightarrow> mmobj option \<times> world" where
  "anon_create w =
     (case anons w of
        [] \<Rightarrow> (None, w)
      | x # xs \<Rightarrow> (x, w\<lparr>anons := xs\<rparr>))"

text \<open>
  Modelled from the spec: the \<^verbatim>\<open>ref\<close> and \<^verbatim>\<open>put\<close> operations of \<^verbatim>\<open>mmo_ops\<close> are not in
  this file; the spec's \<^verbatim>\<open>acquire(obj)\<close> is "non-failing refcount++" and
  \<^verbatim>\<open>release(obj)\<close> is "refcount--".
\<close>

definition mmo_ref :: "world \<Rightarrow> mmobj \<Rightarrow> world" where
  "mmo_ref w obj = w\<lparr>refcnt := (refcnt w)(obj := refcnt w obj + 1)\<rparr>"

definition mmo_put :: "world \<Rightarrow> mmobj \<Rightarrow> world" where
  "mmo_put w obj = w\<lparr>refcnt := (refcnt w)(obj := refcnt w obj - 1)\<rparr>"

text \<open>
  Modelled from the spec: the macro \<^verbatim>\<open>PAGE_ALIGNED\<close> is not in this file; the spec's
  "\<^verbatim>\<open>off\<close> must be a whole number of pages".
\<close>

definition PAGE_ALIGNED :: "kconf \<Rightarrow> u32 \<Rightarrow> bool" where
  "PAGE_ALIGNED c off = (unat off mod PAGE_SIZE c = 0)"

section \<open>\<^verbatim>\<open>vmmap_insert\<close>\<close>

text \<open>
  The loop of \<^verbatim>\<open>vmmap_insert\<close> over the non-empty list. The second argument is the area
  before \<open>cur\<close> (\<open>None\<close> when \<^verbatim>\<open>vma_cur->vma_plink.l_prev == list\<close>); the loop running off
  the end is \<^verbatim>\<open>list_insert_tail\<close>.
\<close>

fun insert_iter :: "vmarea \<Rightarrow> vmarea option \<Rightarrow> vmarea list \<Rightarrow> vmarea list" where
  "insert_iter newvma prev [] = [newvma]"
| "insert_iter newvma None (vma_cur # rest) =
     (if vma_end newvma \<le> vma_start vma_cur then newvma # vma_cur # rest
      else vma_cur # insert_iter newvma (Some vma_cur) rest)"
| "insert_iter newvma (Some vma_prev) (vma_cur # rest) =
     (if vma_end newvma \<le> vma_start vma_cur \<and> vma_end vma_prev \<le> vma_start newvma
      then newvma # vma_cur # rest
      else vma_cur # insert_iter newvma (Some vma_cur) rest)"

definition vmmap_insert :: "vmmap \<Rightarrow> vmarea \<Rightarrow> vmmap kres" where
  "vmmap_insert m newvma =
     (if vma_start newvma < vma_end newvma then
        (let linked = newvma\<lparr>vma_vmmap := Some (vmm_self m)\<rparr> in
         if vmm_list m = [] then Ret (m\<lparr>vmm_list := [linked]\<rparr>)
         else Ret (m\<lparr>vmm_list := insert_iter linked None (vmm_list m)\<rparr>))
      else Panic)"

section \<open>\<^verbatim>\<open>vmmap_find_range\<close>\<close>

text \<open>
  The two loops; \<open>None\<close> is the loop ending without a \<^verbatim>\<open>return\<close>. The function returns
  \<^verbatim>\<open>int\<close>, so an unsigned page number is read as two's complement (\<open>sint\<close>).
  \<open>hilo_iter\<close> walks the reversed list (\<^verbatim>\<open>list_iterate_reverse\<close>); its third argument is
  the area after \<open>cur\<close> in list order.
\<close>

fun lohi_iter :: "u32 \<Rightarrow> vmarea option \<Rightarrow> vmarea list \<Rightarrow> int option" where
  "lohi_iter npages prev [] = None"
| "lohi_iter npages None (vma_cur # rest) =
     (if npages \<le> vma_start vma_cur then Some 0
      else lohi_iter npages (Some vma_cur) rest)"
| "lohi_iter npages (Some vma_prev) (vma_cur # rest) =
     (if npages \<le> vma_start vma_cur - vma_end vma_prev then Some (sint (vma_end vma_prev))
      else lohi_iter npages (Some vma_cur) rest)"

fun hilo_iter :: "u32 \<Rightarrow> u32 \<Rightarrow> vmarea option \<Rightarrow> vmarea list \<Rightarrow> int option" where
  "hilo_iter uph npages nxt [] = None"
| "hilo_iter uph npages None (vma_cur # rest) =
     (if npages \<le> uph - vma_end vma_cur then Some (sint (vma_end vma_cur))
      else hilo_iter uph npages (Some vma_cur) rest)"
| "hilo_iter uph npages (Some vma_next) (vma_cur # rest) =
     (if npages \<le> vma_start vma_next - vma_end vma_cur then Some (sint (vma_end vma_cur))
      else hilo_iter uph npages (Some vma_cur) rest)"

definition vmmap_find_range :: "kconf \<Rightarrow> vmmap \<Rightarrow> u32 \<Rightarrow> int \<Rightarrow> int" where
  "vmmap_find_range c m npages dir =
     (if dir = VMMAP_DIR_LOHI c \<or> dir = 0 then
        (if vmm_list m = [] then 0
         else
           (case lohi_iter npages None (vmm_list m) of
              Some r \<Rightarrow> r
            | None \<Rightarrow>
                (let vma_cur = last (vmm_list m) in
                 if npages \<le> USER_PAGE_HIGH c - vma_end vma_cur then sint (vma_end vma_cur)
                 else - 1)))
      else
        (if vmm_list m = [] then sint (USER_PAGE_HIGH c - npages)
         else
           (case hilo_iter (USER_PAGE_HIGH c) npages None (rev (vmm_list m)) of
              Some r \<Rightarrow> r
            | None \<Rightarrow>
                (let vma_cur = hd (vmm_list m) in
                 if npages \<le> vma_start vma_cur then 0 else - 1))))"

section \<open>\<^verbatim>\<open>vmmap_lookup\<close> and \<^verbatim>\<open>vmmap_is_range_empty\<close>\<close>

fun lookup_iter :: "u32 \<Rightarrow> vmarea list \<Rightarrow> vmarea option" where
  "lookup_iter vfn [] = None"
| "lookup_iter vfn (vma # rest) =
     (if vma_start vma \<le> vfn \<and> vfn < vma_end vma then Some vma
      else lookup_iter vfn rest)"

definition vmmap_lookup :: "kconf \<Rightarrow> vmmap \<Rightarrow> u32 \<Rightarrow> vmarea option kres" where
  "vmmap_lookup c m vfn =
     (if valid_pagenumber c vfn then Ret (lookup_iter vfn (vmm_list m)) else Panic)"

fun range_empty_iter :: "u32 \<Rightarrow> u32 \<Rightarrow> vmarea list \<Rightarrow> int" where
  "range_empty_iter startvfn npages [] = 1"
| "range_empty_iter startvfn npages (vma # rest) =
     (if startvfn + npages \<le> vma_start vma \<or> vma_end vma \<le> startvfn
      then range_empty_iter startvfn npages rest
      else 0)"

definition vmmap_is_range_empty :: "vmmap \<Rightarrow> u32 \<Rightarrow> u32 \<Rightarrow> int" where
  "vmmap_is_range_empty m startvfn npages = range_empty_iter startvfn npages (vmm_list m)"

section \<open>\<^verbatim>\<open>vmmap_remove\<close>\<close>

text \<open>
  The body of the loop is four \<^verbatim>\<open>if\<close> statements in a row, each reading the area as the
  ones before left it. Case 1 answers the area it linked before \<open>vma\<close> (if any) and the
  updated \<open>vma\<close>, or \<open>None\<close> when \<^verbatim>\<open>vmarea_alloc\<close> returned \<^verbatim>\<open>NULL\<close>. Case 4 answers what is
  left of \<open>vma\<close> in the list; its \<^verbatim>\<open>vmarea_free\<close> hands the memory back to the slab, whose
  later answers are given by \<open>slab\<close> as they are.
\<close>

definition remove_case1 ::
  "u32 \<Rightarrow> u32 \<Rightarrow> world \<Rightarrow> vmarea \<Rightarrow> (vmarea list \<times> vmarea) option \<times> world" where
  "remove_case1 lopage hipage w vma =
     (if vma_start vma < lopage \<and> hipage < vma_end vma then
        (case vmarea_alloc w of
           (None, w1) \<Rightarrow> (None, w1)
         | (Some fresh, w1) \<Rightarrow>
             (let vma_new = fresh\<lparr>vma_start := vma_start vma, vma_end := lopage,
                                   vma_off := vma_off vma, vma_prot := vma_prot vma,
                                   vma_flags := vma_flags vma, vma_vmmap := vma_vmmap vma,
                                   vma_obj := vma_obj vma\<rparr>;
                  w2 = mmo_ref w1 (vma_obj vma_new)
              in (Some ([vma_new],
                        vma\<lparr>vma_off := hipage - vma_start vma + vma_off vma,
                             vma_start := hipage\<rparr>), w2)))
      else (Some ([], vma), w))"

definition remove_case2 :: "u32 \<Rightarrow> u32 \<Rightarrow> vmarea \<Rightarrow> vmarea" where
  "remove_case2 lopage hipage vma =
     (if vma_start vma < lopage \<and> vma_end vma \<le> hipage then vma\<lparr>vma_end := lopage\<rparr>
      else vma)"

definition remove_case3 :: "u32 \<Rightarrow> u32 \<Rightarrow> vmarea \<Rightarrow> vmarea" where
  "remove_case3 lopage hipage vma =
     (if lopage \<le> vma_start vma \<and> hipage < vma_end vma
      then vma\<lparr>vma_off := hipage - vma_start vma + vma_off vma, vma_start := hipage\<rparr>
      else vma)"

definition remove_case4 :: "u32 \<Rightarrow> u32 \<Rightarrow> world \<Rightarrow> vmarea \<Rightarrow> vmarea list \<times> world" where
  "remove_case4 lopage hipage w vma =
     (if lopage \<le> vma_start vma \<and> vma_end vma \<le> hipage then ([], mmo_put w (vma_obj vma))
      else ([vma], w))"

text \<open>
  \<^verbatim>\<open>list_iterate_begin\<close> reads the next link before the body runs, so the loop visits the
  areas that were in the list at the start, in order, whatever the body links before the
  current one or unlinks. The \<^verbatim>\<open>return -ENOSPC\<close> leaves the rest of the list as it is.
\<close>

fun remove_iter ::
  "kconf \<Rightarrow> u32 \<Rightarrow> u32 \<Rightarrow> world \<Rightarrow> vmarea list \<Rightarrow> int \<times> world \<times> vmarea list" where
  "remove_iter c lopage hipage w [] = (0, w, [])"
| "remove_iter c lopage hipage w (vma # rest) =
     (case remove_case1 lopage hipage w vma of
        (None, w1) \<Rightarrow> (- ENOSPC c, w1, vma # rest)
      | (Some (linked, vma1), w1) \<Rightarrow>
          (let vma2 = remove_case2 lopage hipage vma1;
               vma3 = remove_case3 lopage hipage vma2;
               (kept, w4) = remove_case4 lopage hipage w1 vma3;
               (r, w5, rest') = remove_iter c lopage hipage w4 rest
           in (r, w5, linked @ kept @ rest')))"

definition vmmap_remove ::
  "kconf \<Rightarrow> world \<Rightarrow> vmmap \<Rightarrow> u32 \<Rightarrow> u32 \<Rightarrow> int \<times> world \<times> vmmap" where
  "vmmap_remove c w m lopage npages =
     (let hipage = lopage + npages;
          (r, w', areas) = remove_iter c lopage hipage w (vmm_list m)
      in (r, w', m\<lparr>vmm_list := areas\<rparr>))"

section \<open>\<^verbatim>\<open>vmmap_map\<close>\<close>

text \<open>
  The loop \<^verbatim>\<open>for (pagenum = lopage; pagenum < hipage; pagenum++)\<close> over the fresh
  anonymous object. It answers \<open>Ret None\<close> when every call succeeded, \<open>Ret (Some err)\<close> at
  the first negative status, and \<open>Panic\<close> when \<^verbatim>\<open>KASSERT(pf == NULL)\<close> fails there.
\<close>

function anon_lookup_pages ::
  "kconf \<Rightarrow> mmobj \<Rightarrow> u32 \<Rightarrow> u32 \<Rightarrow> world \<Rightarrow> int option kres \<times> world" where
  "anon_lookup_pages c mmobj_anon pagenum hipage w =
     (if pagenum < hipage then
        (case lookuppage c mmobj_anon pagenum 1 of
           (err, pf_null) \<Rightarrow>
             (let w' = w\<lparr>pagelog := pagelog w @ [(mmobj_anon, pagenum, 1)]\<rparr> in
              if err < 0 then (if pf_null then (Ret (Some err), w') else (Panic, w'))
              else anon_lookup_pages c mmobj_anon (pagenum + 1) hipage w'))
      else (Ret None, w))"
  by pat_completeness auto
termination
proof (relation "measure (\<lambda>(c, a, pagenum, hipage, w). unat hipage - unat pagenum)")
  show "wf (measure (\<lambda>(c, a, pagenum, hipage, w). unat hipage - unat pagenum))" by simp
next
  fix c :: kconf and mmobj_anon :: mmobj and pagenum hipage :: u32 and w :: world
    and x :: "int \<times> bool" and err :: int and pf_null :: bool and w' :: world
  assume lt: "pagenum < hipage"
  have below: "unat pagenum < unat hipage" using lt by (simp add: word_less_nat_alt)
  moreover have "unat hipage < 2 ^ 32" using unsigned_less [of hipage] by simp
  ultimately have "unat pagenum + unat (1::u32) < 2 ^ LENGTH(32)" by simp
  then have "unat (pagenum + 1) = unat pagenum + unat (1::u32)" by (simp only: unat_add_lem)
  then show "((c, mmobj_anon, pagenum + 1, hipage, w'), (c, mmobj_anon, pagenum, hipage, w))
        \<in> measure (\<lambda>(c, a, pagenum, hipage, w). unat hipage - unat pagenum)"
    using below by simp
qed

declare anon_lookup_pages.simps [simp del]

text \<open>
  The block \<^verbatim>\<open>if (file == NULL) { ... } else { ... }\<close>: \<open>Inl err\<close> is a \<^verbatim>\<open>return err\<close>,
  \<open>Inr vma\<close> the area under construction as the block leaves it. In the \<^verbatim>\<open>else\<close> branch
  the object the callback stored in \<^verbatim>\<open>mmobj_ret\<close> is a local that nothing reads again.
\<close>

definition map_object ::
  "kconf \<Rightarrow> world \<Rightarrow> vnode option \<Rightarrow> u32 \<Rightarrow> u32 \<Rightarrow> vmarea \<Rightarrow> (int + vmarea) kres \<times> world" where
  "map_object c w file lopage hipage vma_result =
     (case file of
        None \<Rightarrow>
          (case anon_create w of
             (None, w1) \<Rightarrow> (Ret (Inl (- ENOSPC c)), w1)
           | (Some mmobj_anon, w1) \<Rightarrow>
               (case anon_lookup_pages c mmobj_anon lopage hipage w1 of
                  (Panic, w2) \<Rightarrow> (Panic, w2)
                | (Ret (Some err), w2) \<Rightarrow> (Ret (Inl err), w2)
                | (Ret None, w2) \<Rightarrow> (Ret (Inr (vma_result\<lparr>vma_obj := mmobj_anon\<rparr>)), w2)))
      | Some mmap \<Rightarrow>
          (case mmap vma_result of
             (err, mmobj_ret, vma_after) \<Rightarrow>
               if err < 0 then (if mmobj_ret = None then (Ret (Inl err), w) else (Panic, w))
               else (Ret (Inr vma_after), w)))"

text \<open>
  The end of \<^verbatim>\<open>vmmap_map\<close> ("time for the final move"): the deferred \<^verbatim>\<open>vmmap_remove\<close>,
  whose status is not read, then \<^verbatim>\<open>vmmap_insert\<close> and \<^verbatim>\<open>return 0\<close>.
\<close>

definition map_commit ::
  "kconf \<Rightarrow> world \<Rightarrow> vmmap \<Rightarrow> bool \<Rightarrow> u32 \<Rightarrow> u32 \<Rightarrow> vmarea \<Rightarrow> (int \<times> world \<times> vmmap) kres" where
  "map_commit c w m remove lopage npages vma_result =
     (case (if remove then
              (case vmmap_remove c w m lopage npages of (r, w3, m1) \<Rightarrow> (w3, m1))
            else (w, m)) of
        (w3, m1) \<Rightarrow>
          (case vmmap_insert m1 vma_result of
             Panic \<Rightarrow> Panic
           | Ret m2 \<Rightarrow> Ret (0, w3, m2)))"

text \<open>
  \<^verbatim>\<open>vmmap_map\<close>. The result is the status with the state and the map as the call leaves
  them. The body of \<^verbatim>\<open>if (flags & MAP_PRIVATE)\<close> is empty in the source, so both branches
  of it leave the area as it is. The parameter \<^verbatim>\<open>new\<close> is never written and is left out.
\<close>

definition vmmap_map ::
  "kconf \<Rightarrow> world \<Rightarrow> vmmap \<Rightarrow> vnode option \<Rightarrow> u32 \<Rightarrow> u32 \<Rightarrow> 32 word \<Rightarrow> 32 word \<Rightarrow> u32 \<Rightarrow> int
     \<Rightarrow> (int \<times> world \<times> vmmap) kres" where
  "vmmap_map c w m file lopage npages prot flags off dir =
     (if PAGE_ALIGNED c off then
        (case vmarea_alloc w of
           (None, w1) \<Rightarrow> Ret (- ENOSPC c, w1, m)
         | (Some fresh, w1) \<Rightarrow>
             (let ret = vmmap_find_range c m npages dir in
              if lopage = 0 \<and> ret < 0 then (if ret = - 1 then Ret (- 1, w1, m) else Panic)
              else
                (let remove = (lopage \<noteq> 0);
                     lopage = (if lopage = 0 then word_of_int ret else lopage);
                     hipage = lopage + npages;
                     vma_result = fresh\<lparr>vma_start := lopage, vma_end := lopage + npages,
                                         vma_off := 0, vma_prot := prot, vma_flags := flags\<rparr>
                 in case map_object c w1 file lopage hipage vma_result of
                      (Panic, w2) \<Rightarrow> Panic
                    | (Ret (Inl err), w2) \<Rightarrow> Ret (err, w2, m)
                    | (Ret (Inr vma_obj_set), w2) \<Rightarrow>
                        map_commit c w2 m remove lopage npages
                          (if flags AND MAP_PRIVATE c = 0 then vma_obj_set else vma_obj_set))))
      else Panic)"

section \<open>Vocabulary of the properties\<close>

text \<open>
  The page numbers \<open>lopage, lopage + 1, ...\<close> below \<open>hipage\<close>, in order (none when
  \<open>hipage \<le> lopage\<close>).
\<close>

definition page_numbers :: "u32 \<Rightarrow> u32 \<Rightarrow> u32 list" where
  "page_numbers lopage hipage = map word_of_nat [unat lopage..<unat hipage]"

text \<open>A \<^verbatim>\<open>lookuppage\<close> for writing succeeds on this page (its status is not negative).\<close>

definition page_ok :: "kconf \<Rightarrow> mmobj \<Rightarrow> u32 \<Rightarrow> bool" where
  "page_ok c obj pagenum = (0 \<le> fst (lookuppage c obj pagenum 1))"

text \<open>The entry of \<open>pagelog\<close> for a call with \<^verbatim>\<open>forwrite = 1\<close>.\<close>

definition page_call :: "mmobj \<Rightarrow> u32 \<Rightarrow> mmobj \<times> u32 \<times> int" where
  "page_call obj pagenum = (obj, pagenum, 1)"

text \<open>The ordering invariant of the map: each area ends where the next one starts, or before.\<close>

fun ordered :: "vmarea list \<Rightarrow> bool" where
  "ordered [] = True"
| "ordered [a] = True"
| "ordered (a # b # rest) = (vma_end a \<le> vma_start b \<and> ordered (b # rest))"

text \<open>
  Concrete inputs, after the scenarios of the specification: a user window of 1024 pages,
  pages of 4096 bytes, \<^verbatim>\<open>VMMAP_DIR_LOHI = 1\<close> (so 2 is high-to-low), \<^verbatim>\<open>ENOSPC = 28\<close>,
  \<^verbatim>\<open>MAP_PRIVATE = 2\<close>, and a \<^verbatim>\<open>lookuppage\<close> that fails with status \<open>- 12\<close> on the listed
  pages only. \<open>area s e off obj\<close> is a linked area \<open>[s, e)\<close> of map 1.
\<close>

definition conf_1024 :: "u32 list \<Rightarrow> kconf" where
  "conf_1024 bad =
     \<lparr>USER_PAGE_HIGH = 1024, VMMAP_DIR_LOHI = 1, ENOSPC = 28, MAP_PRIVATE = 2,
      PAGE_SIZE = 4096,
      lookuppage = (\<lambda>obj pagenum forwrite. if pagenum \<in> set bad then (- 12, True) else (0, False))\<rparr>"

definition area :: "u32 \<Rightarrow> u32 \<Rightarrow> u32 \<Rightarrow> mmobj \<Rightarrow> vmarea" where
  "area s e off obj =
     \<lparr>vma_start = s, vma_end = e, vma_off = off, vma_prot = 0, vma_flags = 0,
      vma_vmmap = Some 1, vma_obj = obj\<rparr>"

definition vmmap_of :: "vmarea list \<Rightarrow> vmmap" where
  "vmmap_of areas = \<lparr>vmm_self = 1, vmm_list = areas\<rparr>"

definition world_of :: "vmarea option list \<Rightarrow> mmobj option list \<Rightarrow> world" where
  "world_of allocs objs = \<lparr>slab = allocs, anons = objs, refcnt = (\<lambda>obj. 1), pagelog = []\<rparr>"

section \<open>Lemmas on the loops\<close>

lemma unat_succ_below: "(a::u32) < b \<Longrightarrow> unat (a + 1) = unat a + 1"
proof -
  assume "a < b"
  then have "unat a < unat b" by (simp add: word_less_nat_alt)
  moreover have "unat b < 2 ^ 32" using unsigned_less [of b] by simp
  ultimately have "unat a + unat (1::u32) < 2 ^ LENGTH(32)" by simp
  then have "unat (a + 1) = unat a + unat (1::u32)" by (simp only: unat_add_lem)
  then show ?thesis by simp
qed

lemma no_wrap_add:
  "unat (s::u32) + unat n \<le> unat (u::u32) \<Longrightarrow> unat (s + n) = unat s + unat n"
proof -
  assume "unat s + unat n \<le> unat u"
  moreover have "unat u < 2 ^ LENGTH(32)" by (rule unsigned_less)
  ultimately have "unat s + unat n < 2 ^ LENGTH(32)" by simp
  then show ?thesis by (simp only: unat_add_lem)
qed

subsection \<open>\<^verbatim>\<open>vmmap_remove\<close>\<close>

lemma remove_case1_None:
  "remove_case1 lo hi w vma = (None, w1) \<Longrightarrow>
     vma_start vma < lo \<and> hi < vma_end vma \<and> vmarea_alloc w = (None, w1)"
  by (auto simp: remove_case1_def Let_def split: if_splits prod.splits option.splits)

text \<open>
  A status other than 0 is \<^verbatim>\<open>-ENOSPC\<close>, and comes from one place: an area \<open>V\<close> in the
  position of case 1 for which \<^verbatim>\<open>vmarea_alloc\<close> returned \<^verbatim>\<open>NULL\<close>, after the loop went
  through the areas before \<open>V\<close> without failing.
\<close>

lemma remove_iter_fail:
  "remove_iter c lo hi w vs = (r, w', vs') \<Longrightarrow> r \<noteq> 0 \<Longrightarrow>
     r = - ENOSPC c \<and>
     (\<exists>pre V post w1 pre'. vs = pre @ V # post \<and> vma_start V < lo \<and> hi < vma_end V \<and>
        remove_iter c lo hi w pre = (0, w1, pre') \<and> vmarea_alloc w1 = (None, w') \<and>
        vs' = pre' @ V # post)"
proof (induction vs arbitrary: w r w' vs')
  case Nil
  then show ?case by simp
next
  case (Cons vma rest)
  obtain res w1 where c1: "remove_case1 lo hi w vma = (res, w1)"
    by (cases "remove_case1 lo hi w vma")
  show ?case
  proof (cases res)
    case None
    with c1 Cons.prems have r: "r = - ENOSPC c" and w': "w' = w1" and vs': "vs' = vma # rest"
      by auto
    from c1 None have "vma_start vma < lo \<and> hi < vma_end vma \<and> vmarea_alloc w = (None, w1)"
      by (simp add: remove_case1_None)
    then have "vma # rest = [] @ vma # rest \<and> vma_start vma < lo \<and> hi < vma_end vma \<and>
        remove_iter c lo hi w [] = (0, w, []) \<and> vmarea_alloc w = (None, w') \<and>
        vs' = [] @ vma # rest"
      using w' vs' by simp
    then show ?thesis using r by blast
  next
    case (Some lv)
    obtain linked vma1 where lv: "lv = (linked, vma1)" by (cases lv)
    obtain kept w4 where c4:
      "remove_case4 lo hi w1 (remove_case3 lo hi (remove_case2 lo hi vma1)) = (kept, w4)"
      by (cases "remove_case4 lo hi w1 (remove_case3 lo hi (remove_case2 lo hi vma1))")
    obtain r2 w5 rest' where rec: "remove_iter c lo hi w4 rest = (r2, w5, rest')"
      by (cases "remove_iter c lo hi w4 rest")
    have step: "\<And>xs. remove_iter c lo hi w (vma # xs) =
        (case remove_iter c lo hi w4 xs of (r, w5, xs') \<Rightarrow> (r, w5, linked @ kept @ xs'))"
      using c1 Some lv c4 by (simp add: Let_def)
    from step [of rest] rec Cons.prems
    have eqs: "r = r2" "w' = w5" "vs' = linked @ kept @ rest'" by auto
    from Cons.IH [OF rec] eqs Cons.prems(2)
    obtain pre V post w1' pre' where ih:
      "r2 = - ENOSPC c" "rest = pre @ V # post" "vma_start V < lo" "hi < vma_end V"
      "remove_iter c lo hi w4 pre = (0, w1', pre')" "vmarea_alloc w1' = (None, w5)"
      "rest' = pre' @ V # post"
      by blast
    have "remove_iter c lo hi w (vma # pre) = (0, w1', linked @ kept @ pre')"
      using step [of pre] ih(5) by simp
    then have "vma # rest = (vma # pre) @ V # post \<and> vma_start V < lo \<and> hi < vma_end V \<and>
        remove_iter c lo hi w (vma # pre) = (0, w1', linked @ kept @ pre') \<and>
        vmarea_alloc w1' = (None, w') \<and> vs' = (linked @ kept @ pre') @ V # post"
      using ih eqs by simp
    then show ?thesis using ih(1) eqs(1) by blast
  qed
qed

text \<open>A prefix the loop went through without failing does not change what the loop does next.\<close>

lemma remove_iter_append:
  "ENOSPC c \<noteq> 0 \<Longrightarrow> remove_iter c lo hi w pre = (0, w1, pre') \<Longrightarrow>
     remove_iter c lo hi w (pre @ rest) =
       (case remove_iter c lo hi w1 rest of (r, w2, rest') \<Rightarrow> (r, w2, pre' @ rest'))"
proof (induction pre arbitrary: w pre')
  case Nil
  then show ?case by (simp split: prod.splits)
next
  case (Cons vma pre)
  obtain res wa where c1: "remove_case1 lo hi w vma = (res, wa)"
    by (cases "remove_case1 lo hi w vma")
  show ?case
  proof (cases res)
    case None
    with c1 Cons.prems show ?thesis by simp
  next
    case (Some lv)
    obtain linked vma1 where lv: "lv = (linked, vma1)" by (cases lv)
    obtain kept w4 where c4:
      "remove_case4 lo hi wa (remove_case3 lo hi (remove_case2 lo hi vma1)) = (kept, w4)"
      by (cases "remove_case4 lo hi wa (remove_case3 lo hi (remove_case2 lo hi vma1))")
    have step: "\<And>xs. remove_iter c lo hi w (vma # xs) =
        (case remove_iter c lo hi w4 xs of (r, w5, xs') \<Rightarrow> (r, w5, linked @ kept @ xs'))"
      using c1 Some lv c4 by (simp add: Let_def)
    obtain r2 w5 p2 where rec: "remove_iter c lo hi w4 pre = (r2, w5, p2)"
      by (cases "remove_iter c lo hi w4 pre")
    from step [of pre] rec Cons.prems(2)
    have eqs: "r2 = 0" "w5 = w1" "pre' = linked @ kept @ p2" by auto
    from Cons.IH [OF Cons.prems(1)] rec eqs
    have "remove_iter c lo hi w4 (pre @ rest) =
       (case remove_iter c lo hi w1 rest of (r, w2, rest') \<Rightarrow> (r, w2, p2 @ rest'))"
      by simp
    then show ?thesis using step [of "pre @ rest"] eqs by (simp split: prod.splits)
  qed
qed

text \<open>
  The body of the loop on an area in the position of case 1, when the allocation succeeds:
  after case 1 the conditions of cases 2 and 4 are false, and case 3, if its condition
  holds, writes the values the fields already have.
\<close>

lemma remove_iter_cut:
  assumes "vma_start V < lo" and "hi < vma_end V" and "vmarea_alloc w = (Some fresh, w2)"
  shows "remove_iter c lo hi w (V # post) =
     (case remove_iter c lo hi (mmo_ref w2 (vma_obj V)) post of
        (r, w', post') \<Rightarrow>
          (r, w', V\<lparr>vma_end := lo\<rparr> #
                  V\<lparr>vma_off := hi - vma_start V + vma_off V, vma_start := hi\<rparr> # post'))"
  using assms
  by (cases fresh)
    (auto simp: remove_case1_def remove_case2_def remove_case3_def remove_case4_def Let_def
                 vmarea_alloc_def
          split: prod.splits list.splits option.splits if_splits)

text \<open>
  The body of the loop on an area in the position of case 1, when the allocation fails:
  the \<^verbatim>\<open>return -ENOSPC\<close> comes before any write to the area.
\<close>

lemma remove_iter_alloc_fail:
  assumes "vma_start V < lo" and "hi < vma_end V" and "vmarea_alloc w = (None, w2)"
  shows "remove_iter c lo hi w (V # post) = (- ENOSPC c, w2, V # post)"
  using assms by (simp add: remove_case1_def)

section \<open>Claims on \<^verbatim>\<open>vmmap_remove\<close>\<close>

text \<open>
  C3. When \<^verbatim>\<open>vmmap_remove(map, lopage, npages)\<close> reaches an area \<open>V\<close> with
  \<open>vma_start V < lopage\<close> and \<open>lopage + npages < vma_end V\<close>, having gone through the
  areas \<open>pre\<close> before it without failing, and \<^verbatim>\<open>vmarea_alloc\<close> succeeds, then \<open>V\<close> is
  replaced by two areas: a new one, linked immediately before \<open>V\<close>, equal to \<open>V\<close> in
  start, offset, protection, flags, owner and object and ending at \<open>lopage\<close>; and \<open>V\<close>
  itself with \<open>vma_off\<close> increased by \<open>lopage + npages - vma_start V\<close> and \<open>vma_start\<close> set
  to \<open>lopage + npages\<close>, its end and object kept. The loop goes on over the areas after
  \<open>V\<close> from a state in which the reference count of \<open>V\<close>'s object is one more than before
  and every other count is unchanged (\<^verbatim>\<open>ref\<close> is called once, \<^verbatim>\<open>put\<close> is not called).
\<close>

theorem remove_interior_cut:
  assumes enospc: "ENOSPC c \<noteq> 0"
    and areas: "vmm_list m = pre @ V # post"
    and before: "vmmap_remove c w (m\<lparr>vmm_list := pre\<rparr>) lopage npages = (0, w1, m1)"
    and inside: "vma_start V < lopage \<and> lopage + npages < vma_end V"
    and alloc: "vmarea_alloc w1 = (Some fresh, w2)"
  shows "vmmap_remove c w m lopage npages =
     (case remove_iter c lopage (lopage + npages) (mmo_ref w2 (vma_obj V)) post of
        (r, w', post') \<Rightarrow>
          (r, w',
           m\<lparr>vmm_list := vmm_list m1 @
                V\<lparr>vma_end := lopage\<rparr> #
                V\<lparr>vma_off := lopage + npages - vma_start V + vma_off V,
                   vma_start := lopage + npages\<rparr> # post'\<rparr>))
     \<and> refcnt (mmo_ref w2 (vma_obj V)) = (refcnt w1)(vma_obj V := refcnt w1 (vma_obj V) + 1)"
proof -
  obtain r0 w0 pre' where it: "remove_iter c lopage (lopage + npages) w pre = (r0, w0, pre')"
    by (cases "remove_iter c lopage (lopage + npages) w pre")
  with before have pre: "remove_iter c lopage (lopage + npages) w pre = (0, w1, pre')"
    and m1: "vmm_list m1 = pre'"
    by (auto simp: vmmap_remove_def Let_def)
  obtain r2 w3 post' where rest:
    "remove_iter c lopage (lopage + npages) (mmo_ref w2 (vma_obj V)) post = (r2, w3, post')"
    by (cases "remove_iter c lopage (lopage + npages) (mmo_ref w2 (vma_obj V)) post")
  have cut: "remove_iter c lopage (lopage + npages) w1 (V # post) =
      (r2, w3, V\<lparr>vma_end := lopage\<rparr> #
               V\<lparr>vma_off := lopage + npages - vma_start V + vma_off V,
                  vma_start := lopage + npages\<rparr> # post')"
    using remove_iter_cut [OF conjunct1 [OF inside] conjunct2 [OF inside] alloc, of c post] rest
    by (simp del: remove_iter.simps)
  have "remove_iter c lopage (lopage + npages) w (pre @ V # post) =
      (r2, w3, pre' @ V\<lparr>vma_end := lopage\<rparr> #
               V\<lparr>vma_off := lopage + npages - vma_start V + vma_off V,
                  vma_start := lopage + npages\<rparr> # post')"
    using remove_iter_append [OF enospc pre, of "V # post"] cut
    by (simp del: remove_iter.simps)
  then have first: "vmmap_remove c w m lopage npages =
     (case remove_iter c lopage (lopage + npages) (mmo_ref w2 (vma_obj V)) post of
        (r, w', post') \<Rightarrow>
          (r, w',
           m\<lparr>vmm_list := vmm_list m1 @
                V\<lparr>vma_end := lopage\<rparr> #
                V\<lparr>vma_off := lopage + npages - vma_start V + vma_off V,
                   vma_start := lopage + npages\<rparr> # post'\<rparr>))"
    by (simp add: vmmap_remove_def Let_def areas m1 rest del: remove_iter.simps)
  have "refcnt w2 = refcnt w1"
    using alloc by (auto simp: vmarea_alloc_def split: list.splits option.splits)
  then have "refcnt (mmo_ref w2 (vma_obj V)) = (refcnt w1)(vma_obj V := refcnt w1 (vma_obj V) + 1)"
    by (simp add: mmo_ref_def)
  with first show ?thesis by simp
qed

theorem remove_interior_cut_witness:
  "vmmap_remove (conf_1024 []) (world_of [Some (area 0 0 0 0)] []) (vmmap_of [area 100 200 3 7]) 120 30 =
     (0, \<lparr>slab = [], anons = [], refcnt = (\<lambda>obj. 1)(7 := 2), pagelog = []\<rparr>,
      vmmap_of [area 100 120 3 7, area 150 200 53 7])"
proof -
  have h1: "ENOSPC (conf_1024 []) \<noteq> 0" by (simp add: conf_1024_def)
  have h2: "vmm_list (vmmap_of [area 100 200 3 7]) = [] @ area 100 200 3 7 # []"
    by (simp add: vmmap_of_def)
  have h3: "vmmap_remove (conf_1024 []) (world_of [Some (area 0 0 0 0)] [])
              ((vmmap_of [area 100 200 3 7])\<lparr>vmm_list := []\<rparr>) 120 30 =
            (0, world_of [Some (area 0 0 0 0)] [], vmmap_of [])"
    by (simp add: vmmap_remove_def vmmap_of_def)
  have h4: "vma_start (area 100 200 3 7) < 120 \<and> 120 + 30 < vma_end (area 100 200 3 7)"
    by (simp add: area_def)
  have h5: "vmarea_alloc (world_of [Some (area 0 0 0 0)] []) =
            (Some ((area 0 0 0 0)\<lparr>vma_vmmap := None\<rparr>), world_of [] [])"
    by (simp add: vmarea_alloc_def world_of_def)
  show ?thesis
    using remove_interior_cut [OF h1 h2 h3 h4 h5]
    by (simp add: vmmap_of_def area_def world_of_def mmo_ref_def)
qed

text \<open>
  C7. \<^verbatim>\<open>vmmap_remove\<close> fails in one way only, and that way always fails.
  First part: if it returns a status other than 0, the status is \<^verbatim>\<open>-ENOSPC\<close> and it
  comes from \<^verbatim>\<open>vmarea_alloc\<close> returning \<^verbatim>\<open>NULL\<close> for an area \<open>V\<close> in the position of
  case 1; in the map the call leaves, \<open>V\<close> and the areas after it are as they were, and the
  areas before \<open>V\<close> are as a \<^verbatim>\<open>vmmap_remove\<close> of the same range that returned 0 on them
  alone leaves them.
  Second part: whenever the loop reaches an area \<open>V\<close> in the position of case 1, having
  gone through the areas \<open>pre\<close> before it without failing, and \<^verbatim>\<open>vmarea_alloc\<close> returns
  \<^verbatim>\<open>NULL\<close>, the call returns \<^verbatim>\<open>-ENOSPC\<close>; the map it leaves holds the areas before \<open>V\<close>
  as the loop changed them (nothing is rolled back), then \<open>V\<close> unchanged, then the areas
  after \<open>V\<close> unchanged.
\<close>

theorem remove_fails_only_on_split:
  "(vmmap_remove c w m lopage npages = (r, w', m') \<and> r \<noteq> 0 \<longrightarrow>
      r = - ENOSPC c \<and>
      (\<exists>pre V post w1 m1.
         vmm_list m = pre @ V # post \<and>
         vma_start V < lopage \<and> lopage + npages < vma_end V \<and>
         vmmap_remove c w (m\<lparr>vmm_list := pre\<rparr>) lopage npages = (0, w1, m1) \<and>
         vmarea_alloc w1 = (None, w') \<and>
         vmm_list m' = vmm_list m1 @ V # post)) \<and>
   (ENOSPC c \<noteq> 0 \<and>
    vmm_list m = preA @ VA # postA \<and>
    vmmap_remove c w (m\<lparr>vmm_list := preA\<rparr>) lopage npages = (0, wA, mA) \<and>
    vma_start VA < lopage \<and> lopage + npages < vma_end VA \<and>
    vmarea_alloc wA = (None, wB) \<longrightarrow>
      vmmap_remove c w m lopage npages =
        (- ENOSPC c, wB, m\<lparr>vmm_list := vmm_list mA @ VA # postA\<rparr>))"
proof (intro conjI impI)
  assume run: "vmmap_remove c w m lopage npages = (r, w', m') \<and> r \<noteq> 0"
  then obtain vs' where it: "remove_iter c lopage (lopage + npages) w (vmm_list m) = (r, w', vs')"
    and m': "m' = m\<lparr>vmm_list := vs'\<rparr>"
    by (auto simp: vmmap_remove_def Let_def split: prod.splits)
  from run have nz: "r \<noteq> 0" by simp
  from remove_iter_fail [OF it nz]
  obtain pre V post w1 pre' where f:
    "r = - ENOSPC c" "vmm_list m = pre @ V # post" "vma_start V < lopage"
    "lopage + npages < vma_end V"
    "remove_iter c lopage (lopage + npages) w pre = (0, w1, pre')"
    "vmarea_alloc w1 = (None, w')" "vs' = pre' @ V # post"
    by blast
  show "r = - ENOSPC c" by (rule f(1))
  have "vmmap_remove c w (m\<lparr>vmm_list := pre\<rparr>) lopage npages = (0, w1, m\<lparr>vmm_list := pre'\<rparr>)"
    using f(5) by (simp add: vmmap_remove_def Let_def)
  moreover have "vmm_list m' = vmm_list (m\<lparr>vmm_list := pre'\<rparr>) @ V # post"
    using m' f(7) by simp
  ultimately show "\<exists>pre V post w1 m1.
         vmm_list m = pre @ V # post \<and>
         vma_start V < lopage \<and> lopage + npages < vma_end V \<and>
         vmmap_remove c w (m\<lparr>vmm_list := pre\<rparr>) lopage npages = (0, w1, m1) \<and>
         vmarea_alloc w1 = (None, w') \<and>
         vmm_list m' = vmm_list m1 @ V # post"
    using f(2-4,6) by blast
next
  assume h: "ENOSPC c \<noteq> 0 \<and>
    vmm_list m = preA @ VA # postA \<and>
    vmmap_remove c w (m\<lparr>vmm_list := preA\<rparr>) lopage npages = (0, wA, mA) \<and>
    vma_start VA < lopage \<and> lopage + npages < vma_end VA \<and>
    vmarea_alloc wA = (None, wB)"
  then have enospc: "ENOSPC c \<noteq> 0" and areas: "vmm_list m = preA @ VA # postA"
    and before: "vmmap_remove c w (m\<lparr>vmm_list := preA\<rparr>) lopage npages = (0, wA, mA)"
    and lower: "vma_start VA < lopage" and upper: "lopage + npages < vma_end VA"
    and alloc: "vmarea_alloc wA = (None, wB)"
    by simp_all
  obtain r1 w1 pre' where "remove_iter c lopage (lopage + npages) w preA = (r1, w1, pre')"
    by (cases "remove_iter c lopage (lopage + npages) w preA")
  with before have pre: "remove_iter c lopage (lopage + npages) w preA = (0, wA, pre')"
    and mA: "vmm_list mA = pre'"
    by (auto simp: vmmap_remove_def Let_def)
  have "remove_iter c lopage (lopage + npages) w (preA @ VA # postA) =
      (- ENOSPC c, wB, pre' @ VA # postA)"
    using remove_iter_append [OF enospc pre, of "VA # postA"]
      remove_iter_alloc_fail [OF lower upper alloc, of c postA]
    by (simp del: remove_iter.simps)
  then show "vmmap_remove c w m lopage npages =
        (- ENOSPC c, wB, m\<lparr>vmm_list := vmm_list mA @ VA # postA\<rparr>)"
    by (simp add: vmmap_remove_def Let_def areas mA del: remove_iter.simps)
qed

theorem remove_fails_only_on_split_witness:
  "vmmap_remove (conf_1024 []) (world_of [None] []) (vmmap_of [area 10 20 0 7, area 100 200 0 7]) 120 30 =
     (- 28, world_of [] [], vmmap_of [area 10 120 0 7, area 100 200 0 7]) \<and>
   (\<exists>pre V post w1 m1.
        vmm_list (vmmap_of [area 10 20 0 7, area 100 200 0 7]) = pre @ V # post \<and>
        vma_start V < 120 \<and> 120 + 30 < vma_end V \<and>
        vmmap_remove (conf_1024 []) (world_of [None] [])
          ((vmmap_of [area 10 20 0 7, area 100 200 0 7])\<lparr>vmm_list := pre\<rparr>) 120 30 = (0, w1, m1) \<and>
        vmarea_alloc w1 = (None, world_of [] []) \<and>
        vmm_list (vmmap_of [area 10 120 0 7, area 100 200 0 7]) = vmm_list m1 @ V # post)"
proof -
  let ?c = "conf_1024 []"
  let ?w = "world_of [None] []"
  let ?m = "vmmap_of [area 10 20 0 7, area 100 200 0 7]"
  have enospc: "ENOSPC ?c \<noteq> 0" by (simp add: conf_1024_def)
  have areas: "vmm_list ?m = [area 10 20 0 7] @ area 100 200 0 7 # []"
    by (simp add: vmmap_of_def)
  have before: "vmmap_remove ?c ?w (?m\<lparr>vmm_list := [area 10 20 0 7]\<rparr>) 120 30 =
      (0, ?w, vmmap_of [area 10 120 0 7])"
    by (simp add: vmmap_remove_def vmmap_of_def area_def world_of_def
          remove_case1_def remove_case2_def remove_case3_def remove_case4_def)
  have inside: "vma_start (area 100 200 0 7) < 120 \<and> 120 + 30 < vma_end (area 100 200 0 7)"
    by (simp add: area_def)
  have alloc: "vmarea_alloc ?w = (None, world_of [] [])"
    by (simp add: vmarea_alloc_def world_of_def)
  note inst = remove_fails_only_on_split
    [where c = ?c and w = ?w and m = ?m and lopage = 120 and npages = 30
       and r = "- 28" and w' = "world_of [] []"
       and m' = "vmmap_of [area 10 120 0 7, area 100 200 0 7]"
       and preA = "[area 10 20 0 7]" and VA = "area 100 200 0 7" and postA = "[]"
       and wA = ?w and mA = "vmmap_of [area 10 120 0 7]" and wB = "world_of [] []"]
  from inst [THEN conjunct2] enospc areas before inside alloc
  have "vmmap_remove ?c ?w ?m 120 30 =
      (- ENOSPC ?c, world_of [] [],
       ?m\<lparr>vmm_list := vmm_list (vmmap_of [area 10 120 0 7]) @ area 100 200 0 7 # []\<rparr>)"
    by blast
  then have run: "vmmap_remove ?c ?w ?m 120 30 =
     (- 28, world_of [] [], vmmap_of [area 10 120 0 7, area 100 200 0 7])"
    by (simp add: conf_1024_def vmmap_of_def)
  have "(- 28::int) \<noteq> 0" by simp
  with inst [THEN conjunct1] run show ?thesis by blast
qed

section \<open>Lemmas on \<^verbatim>\<open>vmmap_map\<close>, the queries and \<^verbatim>\<open>vmmap_insert\<close>\<close>

subsection \<open>\<^verbatim>\<open>vmmap_map\<close>\<close>

text \<open>The final move of \<^verbatim>\<open>vmmap_map\<close> returns 0 when it returns.\<close>

lemma map_commit_status:
  "map_commit c w m remove lopage npages v = Ret (r, w', m') \<Longrightarrow> r = 0"
  by (auto simp: map_commit_def split: prod.splits kres.splits if_splits)

text \<open>The page numbers the loop of \<^verbatim>\<open>vmmap_map\<close> goes through.\<close>

lemma page_numbers_step: "lo < hi \<Longrightarrow> page_numbers lo hi = lo # page_numbers (lo + 1) hi"
proof -
  assume lt: "lo < hi"
  then have "unat lo < unat hi" by (simp add: word_less_nat_alt)
  then have "[unat lo..<unat hi] = unat lo # [Suc (unat lo)..<unat hi]"
    by (rule upt_conv_Cons)
  then show ?thesis using unat_succ_below [OF lt] by (simp add: page_numbers_def)
qed

lemma page_numbers_done: "\<not> lo < hi \<Longrightarrow> page_numbers lo hi = []"
  by (simp add: page_numbers_def word_less_nat_alt)

text \<open>
  The loop over the pages calls \<^verbatim>\<open>lookuppage\<close> on each page number in turn, up to and
  including the first one that fails.
\<close>

lemma anon_lookup_pages_trace:
  "anon_lookup_pages c a lo hi w =
     (case dropWhile (page_ok c a) (page_numbers lo hi) of
        [] \<Rightarrow> (Ret None, w\<lparr>pagelog := pagelog w @ map (page_call a) (page_numbers lo hi)\<rparr>)
      | p # ps \<Rightarrow>
          (if snd (lookuppage c a p 1) then Ret (Some (fst (lookuppage c a p 1))) else Panic,
           w\<lparr>pagelog := pagelog w @
                map (page_call a) (takeWhile (page_ok c a) (page_numbers lo hi) @ [p])\<rparr>))"
proof (induction c a lo hi w rule: anon_lookup_pages.induct)
  case (1 c a lo hi w)
  show ?case
  proof (cases "lo < hi")
    case False
    then show ?thesis
      by (simp add: page_numbers_done anon_lookup_pages.simps [of c a lo hi w])
  next
    case lt: True
    obtain err pf_null where lp: "lookuppage c a lo 1 = (err, pf_null)"
      by (cases "lookuppage c a lo 1")
    show ?thesis
    proof (cases "err < 0")
      case True
      then have "\<not> page_ok c a lo" using lp by (simp add: page_ok_def)
      then show ?thesis using lt lp True
        by (simp add: page_numbers_step page_call_def anon_lookup_pages.simps [of c a lo hi w])
    next
      case False
      then have ok: "page_ok c a lo" using lp by (simp add: page_ok_def)
      define w1 where "w1 = w\<lparr>pagelog := pagelog w @ [(a, lo, 1)]\<rparr>"
      have unfold: "anon_lookup_pages c a lo hi w = anon_lookup_pages c a (lo + 1) hi w1"
        using lt lp False
        by (simp add: anon_lookup_pages.simps [of c a lo hi w] w1_def)
      have ih: "anon_lookup_pages c a (lo + 1) hi w1 =
        (case dropWhile (page_ok c a) (page_numbers (lo + 1) hi) of
           [] \<Rightarrow> (Ret None,
                  w1\<lparr>pagelog := pagelog w1 @ map (page_call a) (page_numbers (lo + 1) hi)\<rparr>)
         | p # ps \<Rightarrow>
             (if snd (lookuppage c a p 1) then Ret (Some (fst (lookuppage c a p 1))) else Panic,
              w1\<lparr>pagelog := pagelog w1 @
                   map (page_call a)
                     (takeWhile (page_ok c a) (page_numbers (lo + 1) hi) @ [p])\<rparr>))"
        unfolding w1_def by (rule "1.IH" [OF lt lp [symmetric] refl False])
      have pn: "page_numbers lo hi = lo # page_numbers (lo + 1) hi"
        using lt by (rule page_numbers_step)
      show ?thesis
      proof (cases "dropWhile (page_ok c a) (page_numbers (lo + 1) hi)")
        case Nil
        have "anon_lookup_pages c a lo hi w =
              (Ret None,
               w1\<lparr>pagelog := pagelog w1 @ map (page_call a) (page_numbers (lo + 1) hi)\<rparr>)"
          by (simp add: unfold ih Nil del: dropWhile_eq_Nil_conv)
        then show ?thesis
          using ok Nil by (simp add: w1_def pn page_call_def del: dropWhile_eq_Nil_conv)
      next
        case (Cons p ps)
        have "anon_lookup_pages c a lo hi w =
              (if snd (lookuppage c a p 1) then Ret (Some (fst (lookuppage c a p 1))) else Panic,
               w1\<lparr>pagelog := pagelog w1 @
                    map (page_call a)
                      (takeWhile (page_ok c a) (page_numbers (lo + 1) hi) @ [p])\<rparr>)"
          by (simp add: unfold ih Cons)
        then show ?thesis
          using ok Cons by (simp add: w1_def pn page_call_def)
      qed
    qed
  qed
qed

text \<open>
  \<^verbatim>\<open>vmmap_map\<close> once the area shell is allocated and the range is chosen: \<open>lo\<close> is the
  first page of the range, the caller's or the one \<^verbatim>\<open>vmmap_find_range\<close> found.
\<close>

lemma vmmap_map_unfold:
  assumes al: "PAGE_ALIGNED c off"
    and alloc: "vmarea_alloc w = (Some fresh, w1)"
    and gap: "\<not> (lopage = 0 \<and> vmmap_find_range c m npages dir < 0)"
    and lo: "lo = (if lopage = 0 then word_of_int (vmmap_find_range c m npages dir) else lopage)"
  shows "vmmap_map c w m file lopage npages prot flags off dir =
     (case map_object c w1 file lo (lo + npages)
             (fresh\<lparr>vma_start := lo, vma_end := lo + npages, vma_off := 0, vma_prot := prot,
                     vma_flags := flags\<rparr>) of
        (Panic, w2) \<Rightarrow> Panic
      | (Ret (Inl err), w2) \<Rightarrow> Ret (err, w2, m)
      | (Ret (Inr v), w2) \<Rightarrow> map_commit c w2 m (lopage \<noteq> 0) lo npages v)"
proof (cases "lopage = 0")
  case True
  with gap have "\<not> vmmap_find_range c m npages dir < 0" by simp
  with True al alloc lo show ?thesis
    by (simp add: vmmap_map_def Let_def split: prod.splits kres.splits sum.splits)
next
  case False
  with al alloc lo show ?thesis
    by (simp add: vmmap_map_def Let_def split: prod.splits kres.splits sum.splits)
qed

lemma map_object_anon:
  assumes anon: "anon_create w1 = (Some a, w2)"
  shows "map_object c w1 None lo hi v =
     (case dropWhile (page_ok c a) (page_numbers lo hi) of
        [] \<Rightarrow> (Ret (Inr (v\<lparr>vma_obj := a\<rparr>)),
               w2\<lparr>pagelog := pagelog w2 @ map (page_call a) (page_numbers lo hi)\<rparr>)
      | p # ps \<Rightarrow>
          (if snd (lookuppage c a p 1) then Ret (Inl (fst (lookuppage c a p 1))) else Panic,
           w2\<lparr>pagelog := pagelog w2 @
                map (page_call a) (takeWhile (page_ok c a) (page_numbers lo hi) @ [p])\<rparr>))"
proof (cases "dropWhile (page_ok c a) (page_numbers lo hi)")
  case Nil
  then show ?thesis using anon
    by (simp add: map_object_def anon_lookup_pages_trace del: dropWhile_eq_Nil_conv)
next
  case (Cons p ps)
  then show ?thesis using anon by (simp add: map_object_def anon_lookup_pages_trace)
qed

subsection \<open>\<^verbatim>\<open>vmmap_is_range_empty\<close> against \<^verbatim>\<open>vmmap_lookup\<close>\<close>

text \<open>
  A non-empty range \<open>[s, s + n)\<close> that does not wrap and a non-empty area \<open>[a, b)\<close>: the
  test of \<^verbatim>\<open>vmmap_is_range_empty\<close> holds exactly when no page of the range is in the area.
\<close>

lemma overlap_point:
  fixes s n a b :: u32
  assumes wf: "a < b" and pos: "s < s + n"
  shows "(s + n \<le> a \<or> b \<le> s) = (\<forall>v. s \<le> v \<and> v < s + n \<longrightarrow> \<not> (a \<le> v \<and> v < b))"
proof
  assume "s + n \<le> a \<or> b \<le> s"
  then show "\<forall>v. s \<le> v \<and> v < s + n \<longrightarrow> \<not> (a \<le> v \<and> v < b)" by auto
next
  assume all: "\<forall>v. s \<le> v \<and> v < s + n \<longrightarrow> \<not> (a \<le> v \<and> v < b)"
  show "s + n \<le> a \<or> b \<le> s"
  proof (rule ccontr)
    assume "\<not> (s + n \<le> a \<or> b \<le> s)"
    then have "a < s + n" "s < b" by auto
    then have "s \<le> max s a \<and> max s a < s + n \<and> a \<le> max s a \<and> max s a < b"
      using wf pos by (auto simp: max_def)
    with all show False by blast
  qed
qed

lemma range_empty_iter_lookup:
  fixes s n :: u32
  assumes pos: "s < s + n"
  shows "(\<forall>a \<in> set vs. vma_start a < vma_end a) \<Longrightarrow>
     (range_empty_iter s n vs = 1) = (\<forall>v. s \<le> v \<and> v < s + n \<longrightarrow> lookup_iter v vs = None)"
proof (induction vs)
  case Nil
  then show ?case by simp
next
  case (Cons a vs)
  then have wf: "vma_start a < vma_end a" and
    ih: "(range_empty_iter s n vs = 1) = (\<forall>v. s \<le> v \<and> v < s + n \<longrightarrow> lookup_iter v vs = None)"
    by auto
  show ?case
  proof (cases "s + n \<le> vma_start a \<or> vma_end a \<le> s")
    case True
    then have "\<forall>v. s \<le> v \<and> v < s + n \<longrightarrow> \<not> (vma_start a \<le> v \<and> v < vma_end a)"
      using overlap_point [OF wf pos] by simp
    then show ?thesis using True ih by auto
  next
    case False
    then obtain v where "s \<le> v" "v < s + n" "vma_start a \<le> v" "v < vma_end a"
      using overlap_point [OF wf pos] by blast
    then have "\<not> (\<forall>v. s \<le> v \<and> v < s + n \<longrightarrow> lookup_iter v (a # vs) = None)"
      by auto
    then show ?thesis using False by simp
  qed
qed

text \<open>
  The loop answers 1 or 0. On a range of no pages the test of the loop is
  \<open>startvfn \<le> vma_start\<close> or \<open>vma_end \<le> startvfn\<close>: it fails exactly on an area that has
  \<open>startvfn\<close> strictly inside.
\<close>

lemma range_empty_iter_values:
  "range_empty_iter s n vs = 1 \<or> range_empty_iter s n vs = 0"
  by (induction vs) auto

lemma range_empty_iter_zero:
  "(range_empty_iter s 0 vs = 1) = (\<not> (\<exists>a \<in> set vs. vma_start a < s \<and> s < vma_end a))"
  by (induction vs) (auto simp: not_less)

subsection \<open>\<^verbatim>\<open>vmmap_insert\<close> keeps the order\<close>

text \<open>
  Under the precondition of \<^verbatim>\<open>vmmap_insert\<close> (the new area lies wholly before or wholly
  after each area of the map), an ordered map stays ordered.
\<close>

lemma insert_iter_ordered:
  "ordered (p # vs) \<Longrightarrow> vma_end p \<le> vma_start new \<Longrightarrow>
   (\<forall>a \<in> set vs. vma_end new \<le> vma_start a \<or> vma_end a \<le> vma_start new) \<Longrightarrow>
   ordered (p # insert_iter new (Some p) vs)"
proof (induction vs arbitrary: p)
  case Nil
  then show ?case by simp
next
  case (Cons cur rest)
  show ?case
  proof (cases "vma_end new \<le> vma_start cur")
    case True
    with Cons.prems show ?thesis by simp
  next
    case False
    with Cons.prems have "vma_end cur \<le> vma_start new" by auto
    moreover from Cons.prems have "ordered (cur # rest)" by simp
    ultimately have "ordered (cur # insert_iter new (Some cur) rest)"
      using Cons.IH Cons.prems(3) by simp
    with False Cons.prems(1) show ?thesis by simp
  qed
qed

lemma vmmap_insert_ordered:
  assumes "ordered (vmm_list m)"
    and "\<forall>a \<in> set (vmm_list m). vma_end new \<le> vma_start a \<or> vma_end a \<le> vma_start new"
    and "vmmap_insert m new = Ret m'"
  shows "ordered (vmm_list m')"
proof (cases "vmm_list m")
  case Nil
  with assms(3) show ?thesis by (auto simp: vmmap_insert_def Let_def split: if_splits)
next
  case (Cons cur rest)
  define linked where "linked = new\<lparr>vma_vmmap := Some (vmm_self m)\<rparr>"
  have m': "vmm_list m' = insert_iter linked None (cur # rest)"
    using assms(3) Cons by (auto simp: vmmap_insert_def Let_def linked_def split: if_splits)
  show ?thesis
  proof (cases "vma_end linked \<le> vma_start cur")
    case True
    with m' assms(1) Cons show ?thesis by simp
  next
    case False
    with assms(2) Cons have "vma_end cur \<le> vma_start linked" by (auto simp: linked_def)
    moreover have "\<forall>a \<in> set rest. vma_end linked \<le> vma_start a \<or> vma_end a \<le> vma_start linked"
      using assms(2) Cons by (simp add: linked_def)
    ultimately have "ordered (cur # insert_iter linked (Some cur) rest)"
      using assms(1) Cons by (simp add: insert_iter_ordered)
    with False m' show ?thesis by simp
  qed
qed

subsection \<open>Two runs of \<^verbatim>\<open>vmmap_map\<close> on the empty map\<close>

lemma page_numbers_100: "page_numbers 100 103 = [100, 101, 102]"
  by (simp add: page_numbers_def upt_rec)

lemma map_anon_example:
  "vmmap_map (conf_1024 []) (world_of [Some (area 0 0 0 99)] [Some 5]) (vmmap_of [])
       None 100 3 3 2 8192 2 =
     Ret (0,
          \<lparr>slab = [], anons = [], refcnt = (\<lambda>obj. 1),
             pagelog = [(5, 100, 1), (5, 101, 1), (5, 102, 1)]\<rparr>,
          vmmap_of
            [\<lparr>vma_start = 100, vma_end = 103, vma_off = 0, vma_prot = 3, vma_flags = 2,
              vma_vmmap = Some 1, vma_obj = 5\<rparr>])"
proof -
  have al: "PAGE_ALIGNED (conf_1024 []) 8192"
    by (simp add: PAGE_ALIGNED_def conf_1024_def)
  have alloc: "vmarea_alloc (world_of [Some (area 0 0 0 99)] [Some 5]) =
      (Some ((area 0 0 0 99)\<lparr>vma_vmmap := None\<rparr>), world_of [] [Some 5])"
    by (simp add: vmarea_alloc_def world_of_def)
  have gap: "\<not> ((100::u32) = 0 \<and>
      vmmap_find_range (conf_1024 []) (vmmap_of []) 3 2 < 0)"
    by simp
  have anon: "anon_create (world_of [] [Some 5]) = (Some 5, world_of [] [])"
    by (simp add: anon_create_def world_of_def)
  have lo: "(100::u32) = (if (100::u32) = 0
      then word_of_int (vmmap_find_range (conf_1024 []) (vmmap_of []) 3 2)
      else 100)"
    by simp
  show ?thesis
    by (subst vmmap_map_unfold [OF al alloc gap lo], subst map_object_anon [OF anon])
       (simp add: page_numbers_100 page_ok_def page_call_def conf_1024_def world_of_def
          map_commit_def vmmap_remove_def vmmap_insert_def vmmap_of_def area_def)
qed

lemma map_file_example:
  "vmmap_map (conf_1024 []) (world_of [Some (area 0 0 0 99)] []) (vmmap_of [])
       (Some (\<lambda>vma. (0, Some 42, vma))) 100 3 3 2 8192 2 =
     Ret (0, world_of [] [],
          vmmap_of
            [\<lparr>vma_start = 100, vma_end = 103, vma_off = 0, vma_prot = 3, vma_flags = 2,
              vma_vmmap = Some 1, vma_obj = 99\<rparr>])"
proof -
  have al: "PAGE_ALIGNED (conf_1024 []) 8192"
    by (simp add: PAGE_ALIGNED_def conf_1024_def)
  have alloc: "vmarea_alloc (world_of [Some (area 0 0 0 99)] []) =
      (Some ((area 0 0 0 99)\<lparr>vma_vmmap := None\<rparr>), world_of [] [])"
    by (simp add: vmarea_alloc_def world_of_def)
  have gap: "\<not> ((100::u32) = 0 \<and>
      vmmap_find_range (conf_1024 []) (vmmap_of []) 3 2 < 0)"
    by simp
  have lo: "(100::u32) = (if (100::u32) = 0
      then word_of_int (vmmap_find_range (conf_1024 []) (vmmap_of []) 3 2)
      else 100)"
    by simp
  show ?thesis
    by (subst vmmap_map_unfold [OF al alloc gap lo])
       (simp add: map_object_def conf_1024_def world_of_def
          map_commit_def vmmap_remove_def vmmap_insert_def vmmap_of_def area_def)
qed

section \<open>Claims on \<^verbatim>\<open>vmmap_find_range\<close>, \<^verbatim>\<open>vmmap_map\<close> and the queries\<close>

text \<open>
  C1. \<^verbatim>\<open>vmmap_find_range\<close> in the direction high-to-low with one area \<open>[10, 20)\<close> in a
  window of 1024 pages, asked for 5 pages, returns 20, the low end of the gap above the
  area. The range \<open>[1019, 1024)\<close> is empty and lies in the window as well, so 20 is not
  the highest start of a free range of 5 pages, and it is not \<^verbatim>\<open>USER_PAGE_HIGH - npages\<close>.
\<close>

theorem find_range_hilo_low_end:
  "vmmap_find_range (conf_1024 []) (vmmap_of [area 10 20 0 7]) 5 2 = 20 \<and>
   vmmap_is_range_empty (vmmap_of [area 10 20 0 7]) 1019 5 = 1 \<and>
   (1019::u32) + 5 = USER_PAGE_HIGH (conf_1024 []) \<and>
   (2::int) \<noteq> VMMAP_DIR_LOHI (conf_1024 [])"
  by (simp add: vmmap_find_range_def vmmap_is_range_empty_def conf_1024_def vmmap_of_def area_def)

text \<open>
  C2. \<^verbatim>\<open>vmmap_map\<close> with \<^verbatim>\<open>file = NULL\<close> and \<^verbatim>\<open>flags = MAP_PRIVATE\<close>, where
  \<^verbatim>\<open>anon_create\<close> returns the object 5: the call returns 0 and the area it inserted has
  the flag \<^verbatim>\<open>MAP_PRIVATE\<close> and the object 5, the anonymous object itself. No other object
  exists in the run, so none stands between the area and the anonymous object.
\<close>

theorem map_private_keeps_base_object:
  "\<exists>w' new.
     vmmap_map (conf_1024 []) (world_of [Some (area 0 0 0 99)] [Some 5]) (vmmap_of [])
       None 100 3 3 (MAP_PRIVATE (conf_1024 [])) 8192 2 = Ret (0, w', vmmap_of [new]) \<and>
     vma_flags new AND MAP_PRIVATE (conf_1024 []) = MAP_PRIVATE (conf_1024 []) \<and>
     fst (anon_create (snd (vmarea_alloc (world_of [Some (area 0 0 0 99)] [Some 5])))) = Some 5 \<and>
     vma_obj new = 5"
proof -
  have "MAP_PRIVATE (conf_1024 []) = 2" by (simp add: conf_1024_def)
  then show ?thesis
    using map_anon_example
    by (simp add: vmmap_of_def anon_create_def vmarea_alloc_def world_of_def)
qed

text \<open>
  C4. If \<^verbatim>\<open>vmmap_map\<close> returns a status other than 0, the map is as it was before the
  call: every \<^verbatim>\<open>return\<close> of an error comes before \<^verbatim>\<open>vmmap_remove\<close> and \<^verbatim>\<open>vmmap_insert\<close>.
\<close>

theorem map_error_keeps_areas:
  assumes "vmmap_map c w m file lopage npages prot flags off dir = Ret (r, w', m')"
    and "r \<noteq> 0"
  shows "m' = m"
  using assms
  by (auto simp: vmmap_map_def Let_def dest: map_commit_status
           split: if_splits prod.splits option.splits kres.splits sum.splits)

theorem map_error_keeps_areas_witness:
  "vmmap_map (conf_1024 []) (world_of [Some (area 0 0 0 99)] []) (vmmap_of [area 105 115 0 7])
       None 100 10 3 2 8192 2 =
     Ret (- 28, world_of [] [], vmmap_of [area 105 115 0 7])"
proof -
  have "\<exists>w' m'. vmmap_map (conf_1024 []) (world_of [Some (area 0 0 0 99)] [])
       (vmmap_of [area 105 115 0 7]) None 100 10 3 2 8192 2 = Ret (- 28, w', m') \<and> w' = world_of [] []"
    by (simp add: vmmap_map_def conf_1024_def world_of_def vmmap_of_def area_def
          PAGE_ALIGNED_def vmarea_alloc_def map_object_def anon_create_def Let_def)
  then obtain m' where run: "vmmap_map (conf_1024 []) (world_of [Some (area 0 0 0 99)] [])
       (vmmap_of [area 105 115 0 7]) None 100 10 3 2 8192 2 = Ret (- 28, world_of [] [], m')"
    by blast
  have "(- 28::int) \<noteq> 0" by simp
  from map_error_keeps_areas [OF run this] run show ?thesis by simp
qed

text \<open>
  C5. \<^verbatim>\<open>vmmap_remove\<close> of \<open>[50, 60)\<close> on the ordered map \<open>[10, 20)\<close>, \<open>[30, 40)\<close>: no area
  meets the range, yet the condition of case 2 (\<open>vma_start < lopage\<close> and
  \<open>vma_end \<le> hipage\<close>) holds for both, and both get \<open>vma_end = 50\<close>. The map the call
  leaves, \<open>[10, 50)\<close>, \<open>[30, 50)\<close>, is not ordered.
\<close>

theorem remove_breaks_order:
  "ordered (vmm_list (vmmap_of [area 10 20 0 7, area 30 40 0 7])) \<and>
   vmmap_remove (conf_1024 []) (world_of [] []) (vmmap_of [area 10 20 0 7, area 30 40 0 7]) 50 10 =
     (0, world_of [] [], vmmap_of [area 10 50 0 7, area 30 50 0 7]) \<and>
   \<not> ordered (vmm_list (vmmap_of [area 10 50 0 7, area 30 50 0 7]))"
  by (simp add: vmmap_remove_def vmmap_of_def area_def world_of_def conf_1024_def
        remove_case1_def remove_case2_def remove_case3_def remove_case4_def)

text \<open>
  C6, as stated, fails for a range of no pages: with the area \<open>[10, 20)\<close>,
  \<^verbatim>\<open>vmmap_is_range_empty(map, 15, 0)\<close> is 0, while no page lies in \<open>[15, 15)\<close>.
\<close>

theorem range_empty_zero_pages_counterexample:
  "\<not> ((vmmap_is_range_empty (vmmap_of [area 10 20 0 7]) 15 0 = 1) =
      (\<forall>v. 15 \<le> v \<and> v < 15 + 0 \<longrightarrow>
           vmmap_lookup (conf_1024 []) (vmmap_of [area 10 20 0 7]) v = Ret None))"
proof -
  have "vmmap_is_range_empty (vmmap_of [area 10 20 0 7]) 15 0 = 0"
    by (simp add: vmmap_is_range_empty_def vmmap_of_def area_def)
  moreover have "\<forall>v::u32. 15 \<le> v \<and> v < 15 + 0 \<longrightarrow>
      vmmap_lookup (conf_1024 []) (vmmap_of [area 10 20 0 7]) v = Ret None"
    by auto
  ultimately show ?thesis by (simp only: zero_neq_one simp_thms)
qed

text \<open>
  C6, amended. For a page count \<open>npages \<ge> 1\<close>, a map whose areas are not empty
  (\<open>vma_start < vma_end\<close>) and a range with \<open>startvfn + npages \<le> USER_PAGE_HIGH\<close>:
  \<^verbatim>\<open>vmmap_is_range_empty\<close> returns 1 if and only if \<^verbatim>\<open>vmmap_lookup\<close> returns \<^verbatim>\<open>NULL\<close> for
  every page of \<open>[startvfn, startvfn + npages)\<close>. For the page count 0, any map and any
  \<open>startvfn\<close>: \<^verbatim>\<open>vmmap_is_range_empty\<close> returns 1 if and only if no area has
  \<open>vma_start < startvfn < vma_end\<close>, and it returns 1 or 0; so for 0 pages the equivalence
  with \<^verbatim>\<open>vmmap_lookup\<close> holds exactly when \<open>startvfn\<close> does not lie strictly inside an area
  (no page lies in the empty range).
\<close>

theorem range_empty_iff_lookup:
  "(0 < npages \<and> (\<forall>a \<in> set (vmm_list m). vma_start a < vma_end a) \<and>
    unat startvfn + unat npages \<le> unat (USER_PAGE_HIGH c) \<longrightarrow>
      (vmmap_is_range_empty m startvfn npages = 1) =
      (\<forall>v. startvfn \<le> v \<and> v < startvfn + npages \<longrightarrow> vmmap_lookup c m v = Ret None)) \<and>
   (vmmap_is_range_empty m startvfn 0 = 1) =
     (\<not> (\<exists>a \<in> set (vmm_list m). vma_start a < startvfn \<and> startvfn < vma_end a)) \<and>
   (vmmap_is_range_empty m startvfn 0 = 0) =
     (\<exists>a \<in> set (vmm_list m). vma_start a < startvfn \<and> startvfn < vma_end a) \<and>
   ((vmmap_is_range_empty m startvfn 0 = 1) =
      (\<forall>v. startvfn \<le> v \<and> v < startvfn + 0 \<longrightarrow> vmmap_lookup c m v = Ret None)) =
     (\<not> (\<exists>a \<in> set (vmm_list m). vma_start a < startvfn \<and> startvfn < vma_end a))"
proof (intro conjI impI)
  assume h: "0 < npages \<and> (\<forall>a \<in> set (vmm_list m). vma_start a < vma_end a) \<and>
    unat startvfn + unat npages \<le> unat (USER_PAGE_HIGH c)"
  then have n: "0 < npages" and wf: "\<forall>a \<in> set (vmm_list m). vma_start a < vma_end a"
    and fit: "unat startvfn + unat npages \<le> unat (USER_PAGE_HIGH c)"
    by simp_all
  have sum: "unat (startvfn + npages) = unat startvfn + unat npages"
    using fit by (rule no_wrap_add)
  have "0 < unat npages" using n by (simp add: word_less_nat_alt)
  then have pos: "startvfn < startvfn + npages"
    using sum by (simp add: word_less_nat_alt)
  have top: "startvfn + npages \<le> USER_PAGE_HIGH c"
    using sum fit by (simp add: word_le_nat_alt)
  have valid: "\<And>v. v < startvfn + npages \<Longrightarrow> valid_pagenumber c v"
    using top by (auto simp: valid_pagenumber_def)
  have "(\<forall>v. startvfn \<le> v \<and> v < startvfn + npages \<longrightarrow> vmmap_lookup c m v = Ret None) =
        (\<forall>v. startvfn \<le> v \<and> v < startvfn + npages \<longrightarrow> lookup_iter v (vmm_list m) = None)"
    using valid by (auto simp: vmmap_lookup_def)
  then show "(vmmap_is_range_empty m startvfn npages = 1) =
      (\<forall>v. startvfn \<le> v \<and> v < startvfn + npages \<longrightarrow> vmmap_lookup c m v = Ret None)"
    using range_empty_iter_lookup [OF pos wf] by (simp add: vmmap_is_range_empty_def)
next
  show one: "(vmmap_is_range_empty m startvfn 0 = 1) =
     (\<not> (\<exists>a \<in> set (vmm_list m). vma_start a < startvfn \<and> startvfn < vma_end a))"
    by (simp add: vmmap_is_range_empty_def range_empty_iter_zero)
  show "(vmmap_is_range_empty m startvfn 0 = 0) =
     (\<exists>a \<in> set (vmm_list m). vma_start a < startvfn \<and> startvfn < vma_end a)"
    using one range_empty_iter_values [of startvfn 0 "vmm_list m"]
    by (auto simp: vmmap_is_range_empty_def)
  have "(\<forall>v. startvfn \<le> v \<and> v < startvfn + 0 \<longrightarrow> vmmap_lookup c m v = Ret None) = True"
    by auto
  then show "((vmmap_is_range_empty m startvfn 0 = 1) =
      (\<forall>v. startvfn \<le> v \<and> v < startvfn + 0 \<longrightarrow> vmmap_lookup c m v = Ret None)) =
     (\<not> (\<exists>a \<in> set (vmm_list m). vma_start a < startvfn \<and> startvfn < vma_end a))"
    using one by simp
qed

theorem range_empty_iff_lookup_witness:
  "vmmap_is_range_empty (vmmap_of [area 10 20 0 7]) 20 5 = 1 \<and>
   vmmap_lookup (conf_1024 []) (vmmap_of [area 10 20 0 7]) 22 = Ret None \<and>
   vmmap_is_range_empty (vmmap_of [area 10 20 0 7]) 19 5 = 0 \<and>
   (\<exists>v. 19 \<le> v \<and> v < 19 + 5 \<and>
        vmmap_lookup (conf_1024 []) (vmmap_of [area 10 20 0 7]) v \<noteq> Ret None) \<and>
   vmmap_is_range_empty (vmmap_of [area 10 20 0 7]) 16 0 = 0 \<and>
   vmmap_is_range_empty (vmmap_of [area 10 20 0 7]) 10 0 = 1 \<and>
   vmmap_is_range_empty (vmmap_of [area 10 20 0 7]) 20 0 = 1"
proof -
  let ?m = "vmmap_of [area 10 20 0 7]"
  let ?c = "conf_1024 []"
  have wf: "\<forall>a \<in> set (vmm_list ?m). vma_start a < vma_end a"
    by (simp add: vmmap_of_def area_def)
  have n: "(0::u32) < 5" by simp
  have fit1: "unat (20::u32) + unat (5::u32) \<le> unat (USER_PAGE_HIGH ?c)"
    by (simp add: conf_1024_def)
  have fit2: "unat (19::u32) + unat (5::u32) \<le> unat (USER_PAGE_HIGH ?c)"
    by (simp add: conf_1024_def)
  have e1: "vmmap_is_range_empty ?m 20 5 = 1"
    by (simp add: vmmap_is_range_empty_def vmmap_of_def area_def)
  have e2: "vmmap_is_range_empty ?m 19 5 = 0"
    by (simp add: vmmap_is_range_empty_def vmmap_of_def area_def)
  from range_empty_iff_lookup [where m = ?m and c = ?c and startvfn = 20 and npages = 5,
      THEN conjunct1] wf n fit1 e1
  have "\<forall>v. 20 \<le> v \<and> v < 20 + 5 \<longrightarrow> vmmap_lookup ?c ?m v = Ret None"
    by simp
  then have l1: "vmmap_lookup ?c ?m 22 = Ret None"
    by simp
  from range_empty_iff_lookup [where m = ?m and c = ?c and startvfn = 19 and npages = 5,
      THEN conjunct1] wf n fit2 e2
  have "\<not> (\<forall>v. 19 \<le> v \<and> v < 19 + 5 \<longrightarrow> vmmap_lookup ?c ?m v = Ret None)"
    by simp
  then have l2: "\<exists>v. 19 \<le> v \<and> v < 19 + 5 \<and> vmmap_lookup ?c ?m v \<noteq> Ret None"
    by blast
  have in16: "\<exists>a \<in> set (vmm_list ?m). vma_start a < 16 \<and> 16 < vma_end a"
    by (simp add: vmmap_of_def area_def)
  have out10: "\<not> (\<exists>a \<in> set (vmm_list ?m). vma_start a < 10 \<and> 10 < vma_end a)"
    by (simp add: vmmap_of_def area_def)
  have out20: "\<not> (\<exists>a \<in> set (vmm_list ?m). vma_start a < 20 \<and> 20 < vma_end a)"
    by (simp add: vmmap_of_def area_def)
  have z16: "vmmap_is_range_empty ?m 16 0 = 0"
    using range_empty_iff_lookup [where m = ?m and c = ?c and startvfn = 16 and npages = 5,
      THEN conjunct2, THEN conjunct2, THEN conjunct1] in16 by simp
  have z10: "vmmap_is_range_empty ?m 10 0 = 1"
    using range_empty_iff_lookup [where m = ?m and c = ?c and startvfn = 10 and npages = 5,
      THEN conjunct2, THEN conjunct1] out10 by simp
  have z20: "vmmap_is_range_empty ?m 20 0 = 1"
    using range_empty_iff_lookup [where m = ?m and c = ?c and startvfn = 20 and npages = 5,
      THEN conjunct2, THEN conjunct1] out20 by simp
  from e1 l1 e2 l2 z16 z10 z20 show ?thesis by blast
qed

text \<open>
  C8. \<^verbatim>\<open>vmmap_map\<close> called with \<open>off = 8192\<close>, two pages of 4096 bytes: the area it inserted
  has the start, end, protection and flags asked for, and \<open>vma_off = 0\<close>.
\<close>

theorem map_ignores_off:
  "\<exists>w' new.
     vmmap_map (conf_1024 []) (world_of [Some (area 0 0 0 99)] [Some 5]) (vmmap_of [])
       None 100 3 3 2 8192 2 = Ret (0, w', vmmap_of [new]) \<and>
     vma_start new = 100 \<and> vma_end new = 100 + 3 \<and> vma_prot new = 3 \<and> vma_flags new = 2 \<and>
     unat (8192::u32) div PAGE_SIZE (conf_1024 []) = 2 \<and>
     vma_off new = 0"
  using map_anon_example by (simp add: vmmap_of_def conf_1024_def)

text \<open>
  C9. \<^verbatim>\<open>vmmap_map\<close> with a file whose \<^verbatim>\<open>mmap\<close> callback succeeds, stores the object 42 in
  \<^verbatim>\<open>mmobj_ret\<close> and leaves the area alone: the area inserted has \<open>vma_obj = 99\<close>, what the
  slab object held when it was allocated, not 42.
\<close>

theorem map_file_drops_object:
  "\<exists>w' new.
     vmmap_map (conf_1024 []) (world_of [Some (area 0 0 0 99)] []) (vmmap_of [])
       (Some (\<lambda>vma. (0, Some 42, vma))) 100 3 3 2 8192 2 = Ret (0, w', vmmap_of [new]) \<and>
     vma_obj (area 0 0 0 99) = 99 \<and>
     vma_obj new = 99"
  using map_file_example by (simp add: vmmap_of_def area_def)

text \<open>
  C10. \<^verbatim>\<open>vmmap_map\<close> with \<^verbatim>\<open>file = NULL\<close>, once the area shell is allocated, the range
  \<open>[lo, lo + npages)\<close> is chosen and \<^verbatim>\<open>anon_create\<close> returned the object \<open>a\<close>: it calls
  \<^verbatim>\<open>lookuppage\<close> of \<open>a\<close> with \<^verbatim>\<open>forwrite = 1\<close> on the page numbers \<open>lo, lo + 1, ...\<close>
  themselves, in order. If every call succeeds, the calls are those of all pages of the
  range, and only then does the final move (\<^verbatim>\<open>vmmap_remove\<close> if the caller chose the
  range, \<^verbatim>\<open>vmmap_insert\<close>) run, with \<open>a\<close> as the object of the area. If a call fails, the
  calls stop at the first page \<open>p\<close> that fails, the status of that call is returned and
  the map is as it was before the call (a frame pointer that is not \<^verbatim>\<open>NULL\<close> there fails
  the \<^verbatim>\<open>KASSERT\<close>).
\<close>

theorem map_anon_eager_lookup:
  assumes al: "PAGE_ALIGNED c off"
    and alloc: "vmarea_alloc w = (Some fresh, w1)"
    and gap: "\<not> (lopage = 0 \<and> vmmap_find_range c m npages dir < 0)"
    and anon: "anon_create w1 = (Some a, w2)"
    and lo: "lo = (if lopage = 0 then word_of_int (vmmap_find_range c m npages dir) else lopage)"
  shows "vmmap_map c w m None lopage npages prot flags off dir =
     (case dropWhile (page_ok c a) (page_numbers lo (lo + npages)) of
        [] \<Rightarrow>
          map_commit c
            (w2\<lparr>pagelog := pagelog w2 @ map (page_call a) (page_numbers lo (lo + npages))\<rparr>)
            m (lopage \<noteq> 0) lo npages
            (fresh\<lparr>vma_start := lo, vma_end := lo + npages, vma_off := 0, vma_prot := prot,
                    vma_flags := flags, vma_obj := a\<rparr>)
      | p # ps \<Rightarrow>
          (if snd (lookuppage c a p 1)
           then Ret (fst (lookuppage c a p 1),
                     w2\<lparr>pagelog := pagelog w2 @
                          map (page_call a)
                            (takeWhile (page_ok c a) (page_numbers lo (lo + npages)) @ [p])\<rparr>,
                     m)
           else Panic))"
proof (cases "dropWhile (page_ok c a) (page_numbers lo (lo + npages))")
  case Nil
  then show ?thesis
    by (simp add: vmmap_map_unfold [OF al alloc gap lo] map_object_anon [OF anon]
             del: dropWhile_eq_Nil_conv)
next
  case (Cons p ps)
  then show ?thesis
    by (simp add: vmmap_map_unfold [OF al alloc gap lo] map_object_anon [OF anon])
qed

theorem map_anon_eager_lookup_witness:
  "vmmap_map (conf_1024 [101]) (world_of [Some (area 0 0 0 99)] [Some 5])
       (vmmap_of [area 105 115 0 7]) None 100 3 3 2 8192 2 =
     Ret (- 12,
          \<lparr>slab = [], anons = [], refcnt = (\<lambda>obj. 1), pagelog = [(5, 100, 1), (5, 101, 1)]\<rparr>,
          vmmap_of [area 105 115 0 7])"
proof -
  have al: "PAGE_ALIGNED (conf_1024 [101]) 8192"
    by (simp add: PAGE_ALIGNED_def conf_1024_def)
  have alloc: "vmarea_alloc (world_of [Some (area 0 0 0 99)] [Some 5]) =
      (Some ((area 0 0 0 99)\<lparr>vma_vmmap := None\<rparr>), world_of [] [Some 5])"
    by (simp add: vmarea_alloc_def world_of_def)
  have gap: "\<not> ((100::u32) = 0 \<and>
      vmmap_find_range (conf_1024 [101]) (vmmap_of [area 105 115 0 7]) 3 2 < 0)"
    by simp
  have anon: "anon_create (world_of [] [Some 5]) = (Some 5, world_of [] [])"
    by (simp add: anon_create_def world_of_def)
  have lo: "(100::u32) = (if (100::u32) = 0
      then word_of_int (vmmap_find_range (conf_1024 [101]) (vmmap_of [area 105 115 0 7]) 3 2)
      else 100)"
    by simp
  show ?thesis
    using map_anon_eager_lookup [OF al alloc gap anon lo, of 3 2]
    by (simp add: page_numbers_100 page_ok_def page_call_def conf_1024_def world_of_def)
qed

end
